theory Spec2Isabelle
  imports Main
begin

section \<open>Values handled by server.js\<close>

text \<open>
  A file buffer is a sequence of bytes. An error is a JavaScript error value, of which the
  handlers read only the property \<open>message\<close>.
\<close>

type_synonym buffer = "nat list"

datatype error = Error (message: string)

text \<open>One entry of \<open>req.files.photo\<close> or \<open>req.files.video\<close>, as multer's memory storage builds it.\<close>

record multer_file =
  originalname :: string
  buffer :: buffer

text \<open>The result object Cloudinary passes to the upload callback.\<close>

record upload_result =
  secure_url :: string

text \<open>
  A document of the model \<open>Form\<close> (\<open>formSchema\<close>). A property of \<open>req.body\<close> that is
  \<open>undefined\<close> is \<open>None\<close>. The \<open>_id\<close> mongoose generates is left out.
\<close>

record form =
  name :: "string option"
  address :: "string option"
  photoUrls :: "string list"
  videoUrls :: "string list"

text \<open>
  The request after the multer middleware: \<open>req.files\<close> is \<open>undefined\<close> (\<open>None\<close>) or an
  object from field names to arrays of files; \<open>req.body\<close> is an object from field names to
  text values. An array is truthy in JavaScript even when empty, so \<open>!req.files.photo\<close>
  holds exactly when the key is absent.
\<close>

record request =
  files :: "(string \<rightharpoonup> multer_file list) option"
  body :: "string \<rightharpoonup> string"

datatype json =
    JString string
  | JForm form
  | JArray "json list"
  | JObject "(string \<times> json) list"

record response =
  status :: nat
  json :: json

section \<open>The external services\<close>

text \<open>
  The world records what the server did to the two services: the calls of
  \<open>cloudinary.uploader.upload_stream\<close> in the order they were made (buffer and resource type),
  the documents \<open>save\<close> was invoked on, and the documents stored in the collection.
\<close>

record world =
  cloud_log :: "(buffer \<times> string) list"
  save_log :: "form list"
  db :: "form list"

text \<open>
  What the services answer is not decided by the server. \<open>cloud k b t\<close> is the pair
  \<open>(error, result)\<close> Cloudinary hands to the callback of the \<open>k\<close>-th upload call (counted
  from 0 over the whole log), \<open>Inl\<close> for a call back with an error. \<open>completion t\<close> is the
  order in which the uploads of the batch of resource type \<open>t\<close> call back, as positions in
  the batch; an upload whose position does not occur never calls back. \<open>mongo_save\<close> is the
  error \<open>save\<close> rejects with (\<open>None\<close>: the document is stored), and \<open>mongo_find\<close> the error
  \<open>find\<close> rejects with (\<open>None\<close>: it resolves to the stored documents).
\<close>

record env =
  cloud :: "nat \<Rightarrow> buffer \<Rightarrow> string \<Rightarrow> error + upload_result"
  completion :: "string \<Rightarrow> nat list"
  mongo_save :: "form \<Rightarrow> error option"
  mongo_find :: "error option"

section \<open>Promises\<close>

text \<open>
  A promise that has settled is fulfilled with a value or rejected with a reason. A promise
  that never settles is \<open>None\<close>. \<open>await\<close> continues with the value, throws the reason, or
  never resumes.
\<close>

datatype 'a settled = Fulfilled 'a | Rejected error

datatype 'a completion = Normal 'a | Throw error | Pending

fun await :: "'a settled option \<Rightarrow> 'a completion" where
  "await None = Pending"
| "await (Some (Fulfilled v)) = Normal v"
| "await (Some (Rejected reason)) = Throw reason"

text \<open>
  \<open>Promise.all\<close> of ECMAScript. It keeps an array \<open>vals\<close> with one slot per input promise and
  a counter \<open>remaining\<close> of the slots not yet filled. When the promise at position \<open>i\<close> is
  fulfilled, its value is stored at slot \<open>i\<close> (once: the resolve element function has an
  already-called flag) and the counter is decremented; at zero the combined promise is
  fulfilled with the array. When an input promise is rejected, the combined promise is
  rejected with its reason. The first settlement of the combined promise wins.
  \<open>settle_all ps order vals remaining\<close> runs the input promises' settlements in the order
  \<open>order\<close>; \<open>ps ! i\<close> is what the promise at position \<open>i\<close> settles to.
\<close>

fun settle_all :: "'a settled list \<Rightarrow> nat list \<Rightarrow> 'a option list \<Rightarrow> nat \<Rightarrow> 'a list settled option" where
  "settle_all ps [] vals remaining = None"
| "settle_all ps (i # order) vals remaining =
     (if length ps \<le> i then settle_all ps order vals remaining
      else (case ps ! i of
          Rejected reason \<Rightarrow> Some (Rejected reason)
        | Fulfilled x \<Rightarrow>
            if vals ! i \<noteq> None then settle_all ps order vals remaining
            else if remaining - 1 = 0 then Some (Fulfilled (map the (vals[i := Some x])))
            else settle_all ps order (vals[i := Some x]) (remaining - 1)))"

text \<open>For an empty array the counter is zero at once and the result is \<open>[]\<close>.\<close>

definition promise_all :: "'a settled list \<Rightarrow> nat list \<Rightarrow> 'a list settled option" where
  "promise_all ps order =
     (if ps = [] then Some (Fulfilled [])
      else settle_all ps order (replicate (length ps) None) (length ps))"

section \<open>Uploading to Cloudinary\<close>

text \<open>
  \<open>uploadToCloudinary\<close> opens an upload stream, which is one call to the Object Store, and
  returns a promise that the callback rejects with the error or resolves with
  \<open>result.secure_url\<close>. The promise is represented by what it settles to.
\<close>

fun callback :: "error + upload_result \<Rightarrow> string settled" where
  "callback (Inl err) = Rejected err"
| "callback (Inr result) = Fulfilled (secure_url result)"

definition uploadToCloudinary :: "env \<Rightarrow> buffer \<Rightarrow> string \<Rightarrow> world \<Rightarrow> string settled \<times> world" where
  "uploadToCloudinary ev fileBuffer resourceType w =
     (callback (cloud ev (length (cloud_log w)) fileBuffer resourceType),
      w\<lparr>cloud_log := cloud_log w @ [(fileBuffer, resourceType)]\<rparr>)"

text \<open>\<open>fs.map(file => uploadToCloudinary(file.buffer, resourceType))\<close>: every upload is started, in array order, before any is awaited.\<close>

fun map_upload :: "env \<Rightarrow> string \<Rightarrow> multer_file list \<Rightarrow> world \<Rightarrow> string settled list \<times> world" where
  "map_upload ev resourceType [] w = ([], w)"
| "map_upload ev resourceType (f # fs) w =
     (let (p, w1) = uploadToCloudinary ev (buffer f) resourceType w;
          (ps, w2) = map_upload ev resourceType fs w1
      in (p # ps, w2))"

text \<open>\<open>Promise.all(fs.map(...))\<close>, the upload fan-out of one kind.\<close>

definition upload_all :: "env \<Rightarrow> string \<Rightarrow> multer_file list \<Rightarrow> world \<Rightarrow> string list settled option \<times> world" where
  "upload_all ev resourceType fs w =
     (let (ps, w') = map_upload ev resourceType fs w
      in (promise_all ps (completion ev resourceType), w'))"

text \<open>\<open>req.files.photo ? await Promise.all(...) : []\<close>, and the same for video.\<close>

definition upload_kind :: "env \<Rightarrow> string \<Rightarrow> multer_file list option \<Rightarrow> world \<Rightarrow> string list completion \<times> world" where
  "upload_kind ev resourceType fo w =
     (case fo of
        Some fs \<Rightarrow> (let (p, w') = upload_all ev resourceType fs w in (await p, w'))
      | None \<Rightarrow> (Normal [], w))"

section \<open>The record store\<close>

text \<open>\<open>newForm.save()\<close> and \<open>Form.find()\<close> of mongoose.\<close>

definition Form_save :: "env \<Rightarrow> form \<Rightarrow> world \<Rightarrow> unit settled \<times> world" where
  "Form_save ev doc w =
     (case mongo_save ev doc of
        Some err \<Rightarrow> (Rejected err, w\<lparr>save_log := save_log w @ [doc]\<rparr>)
      | None \<Rightarrow> (Fulfilled (), w\<lparr>save_log := save_log w @ [doc], db := db w @ [doc]\<rparr>))"

definition Form_find :: "env \<Rightarrow> world \<Rightarrow> form list settled" where
  "Form_find ev w =
     (case mongo_find ev of
        Some err \<Rightarrow> Rejected err
      | None \<Rightarrow> Fulfilled (db w))"

section \<open>POST /submit-form\<close>

text \<open>Statements of the \<open>try\<close> block run in sequence; a throw or a promise that never settles ends the block.\<close>

fun and_then :: "'a completion \<times> world \<Rightarrow> ('a \<Rightarrow> world \<Rightarrow> 'b completion \<times> world) \<Rightarrow> 'b completion \<times> world" where
  "and_then (Normal v, w) k = k v w"
| "and_then (Throw err, w) k = (Throw err, w)"
| "and_then (Pending, w) k = (Pending, w)"

definition bad_request :: response where
  "bad_request = \<lparr>status = 400, json = JObject [(''message'', JString ''At least one photo or video is required'')]\<rparr>"

definition submitted :: "form \<Rightarrow> response" where
  "submitted newForm = \<lparr>status = 200, json = JObject [(''message'', JString ''Form submitted successfully!''), (''form'', JForm newForm)]\<rparr>"

definition went_wrong :: "error \<Rightarrow> response" where
  "went_wrong err = \<lparr>status = 500, json = JObject [(''message'', JString ''Something went wrong''), (''error'', JString (message err))]\<rparr>"

definition try_block :: "env \<Rightarrow> request \<Rightarrow> world \<Rightarrow> response completion \<times> world" where
  "try_block ev req w =
     (case files req of
        None \<Rightarrow> (Normal bad_request, w)
      | Some fs \<Rightarrow>
          if fs ''photo'' = None \<and> fs ''video'' = None then (Normal bad_request, w)
          else
            and_then (upload_kind ev ''image'' (fs ''photo'') w) (\<lambda>photoUrls w1.
            and_then (upload_kind ev ''video'' (fs ''video'') w1) (\<lambda>videoUrls w2.
              let newForm = \<lparr>name = body req ''name'', address = body req ''address'',
                             photoUrls = photoUrls, videoUrls = videoUrls\<rparr>
              in (case Form_save ev newForm w2 of
                    (Rejected err, w3) \<Rightarrow> (Throw err, w3)
                  | (Fulfilled u, w3) \<Rightarrow> (Normal (submitted newForm), w3)))))"

text \<open>
  The handler: the \<open>try\<close> block, with \<open>catch (err)\<close> answering 500. The result is the
  response sent, or \<open>None\<close> when the handler waits for ever on a promise.
\<close>

definition submit_form :: "env \<Rightarrow> request \<Rightarrow> world \<Rightarrow> response option \<times> world" where
  "submit_form ev req w =
     (case try_block ev req w of
        (Normal res, w') \<Rightarrow> (Some res, w')
      | (Throw err, w') \<Rightarrow> (Some (went_wrong err), w')
      | (Pending, w') \<Rightarrow> (None, w'))"

section \<open>GET /forms\<close>

definition get_forms :: "env \<Rightarrow> world \<Rightarrow> response" where
  "get_forms ev w =
     (case Form_find ev w of
        Fulfilled forms \<Rightarrow> \<lparr>status = 200, json = JArray (map JForm forms)\<rparr>
      | Rejected err \<Rightarrow> \<lparr>status = 500, json = JObject [(''message'', JString ''Error fetching forms'')]\<rparr>)"

section \<open>Notions used to state the properties\<close>

text \<open>
  What the Object Store answers to the upload of the file at position \<open>i\<close> of a batch
  \<open>fs\<close> of resource type \<open>t\<close> whose uploads are started in world \<open>w\<close>.
\<close>

definition store_reply :: "env \<Rightarrow> world \<Rightarrow> string \<Rightarrow> multer_file list \<Rightarrow> nat \<Rightarrow> error + upload_result" where
  "store_reply ev w t fs i = cloud ev (length (cloud_log w) + i) (buffer (fs ! i)) t"

text \<open>Every upload of a batch of \<open>n\<close> files of resource type \<open>t\<close> calls back.\<close>

definition all_complete :: "env \<Rightarrow> string \<Rightarrow> nat \<Rightarrow> bool" where
  "all_complete ev t n \<longleftrightarrow> (\<forall>i<n. i \<in> set (completion ev t))"

text \<open>The files of one kind, none when the key is absent; and the upload calls they need.\<close>

fun the_files :: "multer_file list option \<Rightarrow> multer_file list" where
  "the_files None = []"
| "the_files (Some fs) = fs"

definition photo_files :: "request \<Rightarrow> multer_file list" where
  "photo_files req = (case files req of None \<Rightarrow> [] | Some fs \<Rightarrow> the_files (fs ''photo''))"

definition video_files :: "request \<Rightarrow> multer_file list" where
  "video_files req = (case files req of None \<Rightarrow> [] | Some fs \<Rightarrow> the_files (fs ''video''))"

definition calls :: "string \<Rightarrow> multer_file list \<Rightarrow> (buffer \<times> string) list" where
  "calls t fs = map (\<lambda>f. (buffer f, t)) fs"

text \<open>The request has a \<open>photo\<close> or a \<open>video\<close> key: it passes the check of the handler.\<close>

definition has_key :: "request \<Rightarrow> bool" where
  "has_key req \<longleftrightarrow> (case files req of None \<Rightarrow> False | Some fs \<Rightarrow> fs ''photo'' \<noteq> None \<or> fs ''video'' \<noteq> None)"

text \<open>
  The handler is registered behind \<open>upload.fields\<close> for the fields \<open>photo\<close> and
  \<open>video\<close>. Multer creates the array of a field when a file of that field arrives, and
  deletes the key when it removes the only entry, so in a request multer built a key is
  never mapped to an empty array. \<open>req.files\<close> itself is absent when the request is not
  multipart.
\<close>

definition multer_built :: "request \<Rightarrow> bool" where
  "multer_built req \<longleftrightarrow>
     (case files req of
        None \<Rightarrow> True
      | Some fs \<Rightarrow> fs ''photo'' \<noteq> Some [] \<and> fs ''video'' \<noteq> Some [])"

text \<open>The world once the photo uploads were started, and once the video uploads were too.\<close>

definition after_photos :: "request \<Rightarrow> world \<Rightarrow> world" where
  "after_photos req w = w\<lparr>cloud_log := cloud_log w @ calls ''image'' (photo_files req)\<rparr>"

definition after_videos :: "request \<Rightarrow> world \<Rightarrow> world" where
  "after_videos req w =
     w\<lparr>cloud_log := cloud_log w @ calls ''image'' (photo_files req) @ calls ''video'' (video_files req)\<rparr>"

text \<open>
  \<open>aligned\<close>: the Object Store answered the upload of each file of the batch with a result,
  and \<open>urls ! i\<close> is the URL of the result for the file at position \<open>i\<close>. \<open>failed\<close>: it
  answered the upload of some file of the batch with the error \<open>cause\<close>.
\<close>

definition aligned :: "env \<Rightarrow> world \<Rightarrow> string \<Rightarrow> multer_file list \<Rightarrow> string list \<Rightarrow> bool" where
  "aligned ev w t fs urls \<longleftrightarrow>
     length urls = length fs \<and> (\<forall>i<length fs. store_reply ev w t fs i = Inr \<lparr>secure_url = urls ! i\<rparr>)"

definition failed :: "env \<Rightarrow> world \<Rightarrow> string \<Rightarrow> multer_file list \<Rightarrow> error \<Rightarrow> bool" where
  "failed ev w t fs cause \<longleftrightarrow> (\<exists>i<length fs. store_reply ev w t fs i = Inl cause)"

text \<open>
  \<open>reported\<close>: the upload of some file of the batch called back with the error
  \<open>cause\<close>.
\<close>

definition reported :: "env \<Rightarrow> world \<Rightarrow> string \<Rightarrow> multer_file list \<Rightarrow> error \<Rightarrow> bool" where
  "reported ev w t fs cause \<longleftrightarrow>
     (\<exists>i<length fs. i \<in> set (completion ev t) \<and> store_reply ev w t fs i = Inl cause)"

text \<open>The document the handler builds from the request and the two URL sequences.\<close>

definition new_form :: "request \<Rightarrow> string list \<Rightarrow> string list \<Rightarrow> form" where
  "new_form req pu vu =
     \<lparr>name = body req ''name'', address = body req ''address'', photoUrls = pu, videoUrls = vu\<rparr>"

text \<open>The world after \<open>save\<close> was invoked on \<open>doc\<close>, and after it stored \<open>doc\<close>.\<close>

definition save_invoked :: "form \<Rightarrow> world \<Rightarrow> world" where
  "save_invoked doc w = w\<lparr>save_log := save_log w @ [doc]\<rparr>"

definition stored :: "form \<Rightarrow> world \<Rightarrow> world" where
  "stored doc w = w\<lparr>save_log := save_log w @ [doc], db := db w @ [doc]\<rparr>"

text \<open>
  The invariant of \<open>Promise.all\<close>: the counter is the number of empty slots, and a filled
  slot holds the value its promise was fulfilled with.
\<close>

definition slots_ok :: "'a settled list \<Rightarrow> 'a option list \<Rightarrow> nat \<Rightarrow> bool" where
  "slots_ok ps vals remaining \<longleftrightarrow>
     length vals = length ps \<and>
     remaining = card {j. j < length ps \<and> vals ! j = None} \<and>
     (\<forall>j<length ps. \<forall>v. vals ! j = Some v \<longrightarrow> ps ! j = Fulfilled v)"

section \<open>Example submissions\<close>

text \<open>
  The submission of scenario A: two photos and one video, all stored, the photo uploads
  calling back in reverse order; and variations of it.
\<close>

definition world0 :: world where
  "world0 = \<lparr>cloud_log = [], save_log = [], db = []\<rparr>"

definition p1 :: multer_file where
  "p1 = \<lparr>originalname = ''p1.png'', buffer = [1]\<rparr>"

definition p2 :: multer_file where
  "p2 = \<lparr>originalname = ''p2.png'', buffer = [2]\<rparr>"

definition v1 :: multer_file where
  "v1 = \<lparr>originalname = ''v1.mp4'', buffer = [3]\<rparr>"

definition store_A :: "nat \<Rightarrow> buffer \<Rightarrow> string \<Rightarrow> error + upload_result" where
  "store_A k b t =
     Inr \<lparr>secure_url = (if b = [1] then ''U_p1'' else if b = [2] then ''U_p2'' else ''U_v1'')\<rparr>"

definition env_A :: env where
  "env_A = \<lparr>cloud = store_A, completion = (\<lambda>t. [1, 0]), mongo_save = (\<lambda>doc. None), mongo_find = None\<rparr>"

definition req_A :: request where
  "req_A = \<lparr>files = Some [''photo'' \<mapsto> [p1, p2], ''video'' \<mapsto> [v1]],
            body = [''name'' \<mapsto> ''Ada'', ''address'' \<mapsto> ''1 Infinite Loop'']\<rparr>"

definition form_A :: form where
  "form_A = \<lparr>name = Some ''Ada'', address = Some ''1 Infinite Loop'',
             photoUrls = [''U_p1'', ''U_p2''], videoUrls = [''U_v1'']\<rparr>"

text \<open>The first upload call is answered with an error (and calls back last).\<close>

definition store_B :: "nat \<Rightarrow> buffer \<Rightarrow> string \<Rightarrow> error + upload_result" where
  "store_B k b t = (if k = 0 then Inl (Error ''upload failed'') else store_A k b t)"

definition env_B :: env where
  "env_B = env_A\<lparr>cloud := store_B\<rparr>"

text \<open>The record store rejects every save, or every find.\<close>

definition env_save_fails :: env where
  "env_save_fails = env_A\<lparr>mongo_save := (\<lambda>doc. Some (Error ''save failed''))\<rparr>"

definition env_find_fails :: env where
  "env_find_fails = env_A\<lparr>mongo_find := Some (Error ''find failed'')\<rparr>"

text \<open>
  Submissions with one photo; with a files object that has both keys, each with an empty
  array (not one multer builds); not multipart; and multipart without a file part.
\<close>

definition req_one_photo :: request where
  "req_one_photo = \<lparr>files = Some [''photo'' \<mapsto> [p1]], body = [''name'' \<mapsto> ''Ada'']\<rparr>"

definition req_empty_lists :: request where
  "req_empty_lists = \<lparr>files = Some [''photo'' \<mapsto> [], ''video'' \<mapsto> []], body = [''name'' \<mapsto> ''Ada'']\<rparr>"

definition req_no_files :: request where
  "req_no_files = \<lparr>files = None, body = [''name'' \<mapsto> ''Ada'']\<rparr>"

definition req_no_parts :: request where
  "req_no_parts = \<lparr>files = Some Map.empty, body = [''name'' \<mapsto> ''Ada'']\<rparr>"

section \<open>Properties of \<open>Promise.all\<close> and of the upload fan-out\<close>

lemma slots_ok_length: "slots_ok ps vals remaining \<Longrightarrow> length vals = length ps"
  unfolding slots_ok_def by blast

lemma slots_ok_card: "slots_ok ps vals remaining \<Longrightarrow> remaining = card {j. j < length ps \<and> vals ! j = None}"
  unfolding slots_ok_def by blast

lemma slots_ok_nth: "slots_ok ps vals remaining \<Longrightarrow> j < length ps \<Longrightarrow> vals ! j = Some v \<Longrightarrow> ps ! j = Fulfilled v"
  unfolding slots_ok_def by blast

lemma slots_full:
  assumes "slots_ok ps vals 0"
  shows "ps = map Fulfilled (map the vals)"
proof (rule nth_equalityI)
  have len: "length vals = length ps" by (rule slots_ok_length[OF assms])
  then show "length ps = length (map Fulfilled (map the vals))" by simp
  fix j assume j: "j < length ps"
  have fin: "finite {j. j < length ps \<and> vals ! j = None}" by simp
  have "card {j. j < length ps \<and> vals ! j = None} = 0"
    using slots_ok_card[OF assms] by (rule sym)
  with fin have empty: "{j. j < length ps \<and> vals ! j = None} = {}" by (rule card_0_eq[THEN iffD1])
  have "vals ! j \<noteq> None"
  proof
    assume "vals ! j = None"
    with j have "j \<in> {j. j < length ps \<and> vals ! j = None}" by simp
    with empty show False by (metis empty_iff)
  qed
  then obtain v where v: "vals ! j = Some v" by blast
  have "ps ! j = Fulfilled v" by (rule slots_ok_nth[OF assms j v])
  moreover have "map Fulfilled (map the vals) ! j = Fulfilled (the (vals ! j))"
    using j len by simp
  ultimately show "ps ! j = map Fulfilled (map the vals) ! j" using v by simp
qed

lemma empty_slots_update:
  assumes "i < length ps" "length vals = length ps" "vals ! i = None"
  shows "{j. j < length ps \<and> vals[i := Some x] ! j = None} = {j. j < length ps \<and> vals ! j = None} - {i}"
  using assms by (auto simp: nth_list_update)

lemma slots_ok_update:
  assumes ok: "slots_ok ps vals remaining"
    and i: "i < length ps" and p: "ps ! i = Fulfilled x" and v: "vals ! i = None"
  shows "slots_ok ps (vals[i := Some x]) (remaining - 1)"
proof -
  let ?E = "{j. j < length ps \<and> vals ! j = None}"
  have len: "length vals = length ps" and rem: "remaining = card ?E"
    and ful: "\<And>j v. j < length ps \<Longrightarrow> vals ! j = Some v \<Longrightarrow> ps ! j = Fulfilled v"
    using ok by (simp_all add: slots_ok_def)
  have mem: "i \<in> ?E" using i v by simp
  have "card (?E - {i}) = card ?E - 1"
    using mem by (simp add: card_Diff_singleton)
  then have c: "remaining - 1 = card {j. j < length ps \<and> vals[i := Some x] ! j = None}"
    using empty_slots_update[OF i len v, of x] rem by simp
  have f: "\<forall>j<length ps. \<forall>u. vals[i := Some x] ! j = Some u \<longrightarrow> ps ! j = Fulfilled u"
  proof (intro allI impI)
    fix j u assume j: "j < length ps" and u: "vals[i := Some x] ! j = Some u"
    show "ps ! j = Fulfilled u"
    proof (cases "j = i")
      case True
      with u i len p show ?thesis by simp
    next
      case False
      with u have "vals ! j = Some u" by simp
      with ful[OF j] show ?thesis by simp
    qed
  qed
  show ?thesis
    unfolding slots_ok_def using len c f by simp
qed

lemma settle_all_fulfilled:
  "slots_ok ps vals remaining \<Longrightarrow> settle_all ps order vals remaining = Some (Fulfilled us)
     \<Longrightarrow> ps = map Fulfilled us"
proof (induction order arbitrary: vals remaining)
  case Nil
  then show ?case by simp
next
  case (Cons i order)
  show ?case
  proof (cases "length ps \<le> i")
    case True
    with Cons show ?thesis by simp
  next
    case inb: False
    show ?thesis
    proof (cases "ps ! i")
      case (Rejected e)
      with inb Cons.prems show ?thesis by simp
    next
      case (Fulfilled x)
      show ?thesis
      proof (cases "vals ! i = None")
        case False
        with inb Fulfilled Cons show ?thesis by simp
      next
        case True
        have ok: "slots_ok ps (vals[i := Some x]) (remaining - 1)"
          using slots_ok_update[OF Cons.prems(1) _ Fulfilled True] inb by simp
        show ?thesis
        proof (cases "remaining - 1 = 0")
          case True
          with ok have "ps = map Fulfilled (map the (vals[i := Some x]))"
            using slots_full by metis
          moreover have "us = map the (vals[i := Some x])"
            using Cons.prems(2) inb Fulfilled \<open>vals ! i = None\<close> True by simp
          ultimately show ?thesis by simp
        next
          case False
          then have "settle_all ps order (vals[i := Some x]) (remaining - 1) = Some (Fulfilled us)"
            using Cons.prems(2) inb Fulfilled \<open>vals ! i = None\<close> by simp
          with Cons.IH[OF ok] show ?thesis .
        qed
      qed
    qed
  qed
qed

lemma settle_all_rejected:
  "settle_all ps order vals remaining = Some (Rejected e)
     \<Longrightarrow> \<exists>i\<in>set order. i < length ps \<and> ps ! i = Rejected e"
proof (induction order arbitrary: vals remaining)
  case Nil
  then show ?case by simp
next
  case (Cons i order)
  then show ?case
    by (auto split: if_splits settled.splits)
qed

lemma settle_all_settles:
  "slots_ok ps vals remaining \<Longrightarrow> 0 < remaining
     \<Longrightarrow> \<forall>j<length ps. vals ! j = None \<longrightarrow> j \<in> set order
     \<Longrightarrow> settle_all ps order vals remaining \<noteq> None"
proof (induction order arbitrary: vals remaining)
  case Nil
  then have "{j. j < length ps \<and> vals ! j = None} = {}" by simp
  then have "card {j. j < length ps \<and> vals ! j = None} = 0" by (simp only: card.empty)
  with slots_ok_card[OF Nil.prems(1)] Nil.prems(2) show ?case by simp
next
  case (Cons i order)
  show ?case
  proof (cases "length ps \<le> i")
    case True
    then have "\<forall>j<length ps. vals ! j = None \<longrightarrow> j \<in> set order"
      using Cons.prems(3) by auto
    with Cons True show ?thesis by simp
  next
    case inb: False
    show ?thesis
    proof (cases "ps ! i")
      case (Rejected e)
      with inb show ?thesis by simp
    next
      case (Fulfilled x)
      show ?thesis
      proof (cases "vals ! i = None")
        case False
        then have "\<forall>j<length ps. vals ! j = None \<longrightarrow> j \<in> set order"
          using Cons.prems(3) by auto
        with Cons False inb Fulfilled show ?thesis by simp
      next
        case True
        have ok: "slots_ok ps (vals[i := Some x]) (remaining - 1)"
          using slots_ok_update[OF Cons.prems(1) _ Fulfilled True] inb by simp
        have len: "length vals = length ps" by (rule slots_ok_length[OF Cons.prems(1)])
        have sub: "\<forall>j<length ps. vals[i := Some x] ! j = None \<longrightarrow> j \<in> set order"
          using Cons.prems(3) inb len True by (auto simp: nth_list_update split: if_splits)
        show ?thesis
        proof (cases "remaining - 1 = 0")
          case True
          with inb Fulfilled \<open>vals ! i = None\<close> show ?thesis by simp
        next
          case False
          then have "settle_all ps order (vals[i := Some x]) (remaining - 1) \<noteq> None"
            using Cons.IH[OF ok _ sub] by simp
          with False inb Fulfilled \<open>vals ! i = None\<close> show ?thesis by simp
        qed
      qed
    qed
  qed
qed

lemma slots_ok_start: "slots_ok ps (replicate (length ps) None) (length ps)"
proof -
  have "{j. j < length ps \<and> replicate (length ps) (None::'a option) ! j = None} = {..<length ps}"
    by auto
  then have "card {j. j < length ps \<and> replicate (length ps) (None::'a option) ! j = None} = length ps"
    by (metis card_lessThan)
  then show ?thesis unfolding slots_ok_def by simp
qed

lemma promise_all_fulfilled:
  "promise_all ps order = Some (Fulfilled us) \<Longrightarrow> ps = map Fulfilled us"
  using settle_all_fulfilled[OF slots_ok_start]
  by (auto simp: promise_all_def split: if_splits)

lemma promise_all_rejected:
  "promise_all ps order = Some (Rejected e) \<Longrightarrow> \<exists>i\<in>set order. i < length ps \<and> ps ! i = Rejected e"
  using settle_all_rejected
  by (fastforce simp: promise_all_def split: if_splits)

lemma promise_all_settles:
  assumes "\<forall>j<length ps. j \<in> set order"
  shows "promise_all ps order \<noteq> None"
proof (cases "ps = []")
  case True
  then show ?thesis by (simp add: promise_all_def)
next
  case False
  then have "0 < length ps" by simp
  from settle_all_settles[OF slots_ok_start this] assms
  have "settle_all ps order (replicate (length ps) None) (length ps) \<noteq> None" by simp
  with False show ?thesis by (simp add: promise_all_def)
qed

lemma settle_all_rejected_settles:
  "i \<in> set order \<Longrightarrow> i < length ps \<Longrightarrow> ps ! i = Rejected e
     \<Longrightarrow> settle_all ps order vals remaining \<noteq> None"
proof (induction order arbitrary: vals remaining)
  case Nil
  then show ?case by simp
next
  case (Cons k order)
  show ?case
  proof (cases "k = i")
    case True
    with Cons.prems show ?thesis by simp
  next
    case False
    with Cons.prems have "i \<in> set order" by simp
    from Cons.IH[OF this Cons.prems(2,3)]
    have "\<And>vals remaining. settle_all ps order vals remaining \<noteq> None" .
    then show ?thesis by (simp split: settled.split)
  qed
qed

lemma promise_all_rejected_settles:
  assumes "i \<in> set order" and "i < length ps" and "ps ! i = Rejected e"
  shows "\<exists>c. promise_all ps order = Some (Rejected c)"
proof -
  from assms(2) have "ps \<noteq> []" by auto
  with settle_all_rejected_settles[OF assms] have "promise_all ps order \<noteq> None"
    by (simp add: promise_all_def)
  then obtain s where s: "promise_all ps order = Some s" by blast
  show ?thesis
  proof (cases s)
    case (Fulfilled us)
    with s promise_all_fulfilled have "ps = map Fulfilled us" by blast
    then have "ps ! i = Fulfilled (us ! i)" using assms(2) by simp
    with assms(3) show ?thesis by simp
  next
    case (Rejected c)
    with s show ?thesis by blast
  qed
qed

lemma map_upload_log:
  "snd (map_upload ev rt fs w) = w\<lparr>cloud_log := cloud_log w @ map (\<lambda>f. (buffer f, rt)) fs\<rparr>"
  by (induction fs arbitrary: w) (simp_all add: uploadToCloudinary_def split_beta)

lemma map_upload_promises:
  "fst (map_upload ev rt fs w) =
     map (\<lambda>i. callback (cloud ev (length (cloud_log w) + i) (buffer (fs ! i)) rt)) [0..<length fs]"
proof (induction fs arbitrary: w)
  case Nil
  then show ?case by simp
next
  case (Cons f fs)
  have "[0..<length (f # fs)] = 0 # map Suc [0..<length fs]"
    by (simp add: upt_rec[of 0 "Suc _"] map_Suc_upt del: upt_Suc)
  then show ?case
    using Cons[of "snd (uploadToCloudinary ev (buffer f) rt w)"]
    by (simp add: uploadToCloudinary_def split_beta o_def del: upt_Suc)
qed

lemma upload_all_world:
  "snd (upload_all ev t fs w) = w\<lparr>cloud_log := cloud_log w @ map (\<lambda>f. (buffer f, t)) fs\<rparr>"
  using map_upload_log[of ev t fs w] by (simp add: upload_all_def split_beta)

lemma upload_all_promise:
  "fst (upload_all ev t fs w) =
     promise_all (map (\<lambda>i. callback (store_reply ev w t fs i)) [0..<length fs]) (completion ev t)"
  using map_upload_promises[of ev t fs w] by (simp add: upload_all_def split_beta store_reply_def)

lemma callback_fulfilled: "callback r = Fulfilled u \<Longrightarrow> \<exists>res. r = Inr res \<and> u = secure_url res"
  by (cases r) auto

lemma callback_rejected: "callback r = Rejected e \<Longrightarrow> r = Inl e"
  by (cases r) auto

lemma upload_all_fulfilled:
  assumes "fst (upload_all ev t fs w) = Some (Fulfilled urls)"
  shows "length urls = length fs"
    and "i < length fs \<Longrightarrow> \<exists>res. store_reply ev w t fs i = Inr res \<and> urls ! i = secure_url res"
proof -
  have eq: "map (\<lambda>i. callback (store_reply ev w t fs i)) [0..<length fs] = map Fulfilled urls"
    using assms promise_all_fulfilled unfolding upload_all_promise by blast
  from arg_cong[OF eq, of length] show len: "length urls = length fs" by simp
  assume i: "i < length fs"
  from arg_cong[OF eq, of "\<lambda>xs. xs ! i"] i len
  have "callback (store_reply ev w t fs i) = Fulfilled (urls ! i)" by simp
  from callback_fulfilled[OF this]
  show "\<exists>res. store_reply ev w t fs i = Inr res \<and> urls ! i = secure_url res" .
qed

lemma upload_all_rejected:
  assumes "fst (upload_all ev t fs w) = Some (Rejected e)"
  shows "\<exists>i<length fs. store_reply ev w t fs i = Inl e"
proof -
  from assms promise_all_rejected[of _ "completion ev t" e]
  obtain i where i: "i < length fs"
    and r: "map (\<lambda>i. callback (store_reply ev w t fs i)) [0..<length fs] ! i = Rejected e"
    unfolding upload_all_promise by fastforce
  from r i have "callback (store_reply ev w t fs i) = Rejected e" by simp
  from callback_rejected[OF this] i show ?thesis by blast
qed

lemma upload_all_rejected_reported:
  assumes "fst (upload_all ev t fs w) = Some (Rejected e)"
  shows "reported ev w t fs e"
proof -
  from assms promise_all_rejected[of _ "completion ev t" e]
  obtain i where c: "i \<in> set (completion ev t)" and i: "i < length fs"
    and r: "map (\<lambda>i. callback (store_reply ev w t fs i)) [0..<length fs] ! i = Rejected e"
    unfolding upload_all_promise by fastforce
  from r i have "callback (store_reply ev w t fs i) = Rejected e" by simp
  from callback_rejected[OF this] i c show ?thesis unfolding reported_def by blast
qed

lemma upload_all_reported:
  assumes "reported ev w t fs cause"
  shows "\<exists>c. fst (upload_all ev t fs w) = Some (Rejected c)"
proof -
  from assms obtain i where i: "i < length fs" and c: "i \<in> set (completion ev t)"
    and r: "store_reply ev w t fs i = Inl cause" unfolding reported_def by blast
  have "map (\<lambda>i. callback (store_reply ev w t fs i)) [0..<length fs] ! i = Rejected cause"
    using i r by simp
  from promise_all_rejected_settles[OF c _ this] i show ?thesis
    unfolding upload_all_promise by simp
qed

lemma reported_failed: "reported ev w t fs cause \<Longrightarrow> failed ev w t fs cause"
  unfolding reported_def failed_def by blast

lemma upload_all_settles:
  assumes "all_complete ev t (length fs)"
  shows "fst (upload_all ev t fs w) \<noteq> None"
  unfolding upload_all_promise
  by (rule promise_all_settles) (use assms in \<open>simp add: all_complete_def\<close>)

lemma upload_all_succeeds:
  assumes c: "all_complete ev t (length fs)"
    and ok: "\<forall>i<length fs. \<exists>res. store_reply ev w t fs i = Inr res"
  shows "\<exists>urls. fst (upload_all ev t fs w) = Some (Fulfilled urls)"
proof -
  have "fst (upload_all ev t fs w) \<noteq> None" using c by (rule upload_all_settles)
  then obtain s where s: "fst (upload_all ev t fs w) = Some s" by blast
  show ?thesis
  proof (cases s)
    case (Fulfilled urls)
    with s show ?thesis by blast
  next
    case (Rejected e)
    with s upload_all_rejected[of ev t fs w e]
    obtain i where "i < length fs" "store_reply ev w t fs i = Inl e" by blast
    with ok show ?thesis by fastforce
  qed
qed

lemma upload_all_not_fulfilled:
  assumes "i < length fs" and "store_reply ev w t fs i = Inl err"
  shows "fst (upload_all ev t fs w) \<noteq> Some (Fulfilled urls)"
proof
  assume "fst (upload_all ev t fs w) = Some (Fulfilled urls)"
  from upload_all_fulfilled(2)[OF this assms(1)] assms(2) show False by simp
qed

lemma upload_all_fails:
  assumes i: "i < length fs" and r: "store_reply ev w t fs i = Inl err"
    and c: "i \<in> set (completion ev t)"
  shows "\<exists>cause. reported ev w t fs cause \<and> fst (upload_all ev t fs w) = Some (Rejected cause)"
proof -
  have "reported ev w t fs err" using i r c unfolding reported_def by blast
  from upload_all_reported[OF this]
  obtain cause where res: "fst (upload_all ev t fs w) = Some (Rejected cause)" by blast
  from upload_all_rejected_reported[OF this] res show ?thesis by blast
qed

lemma slots_none_empty:
  assumes ok: "slots_ok ps vals 0" and j: "j < length ps"
  shows "vals ! j \<noteq> None"
proof
  assume n: "vals ! j = None"
  have fin: "finite {j. j < length ps \<and> vals ! j = None}" by simp
  have "card {j. j < length ps \<and> vals ! j = None} = 0"
    using slots_ok_card[OF ok] by (rule sym)
  with fin have empty: "{j. j < length ps \<and> vals ! j = None} = {}" by (rule card_0_eq[THEN iffD1])
  from j n have "j \<in> {j. j < length ps \<and> vals ! j = None}" by simp
  with empty show False by (metis empty_iff)
qed

lemma settle_all_fulfilled_complete:
  "slots_ok ps vals remaining \<Longrightarrow> settle_all ps order vals remaining = Some (Fulfilled us)
     \<Longrightarrow> j < length ps \<Longrightarrow> vals ! j = None \<Longrightarrow> j \<in> set order"
proof (induction order arbitrary: vals remaining)
  case Nil
  then show ?case by simp
next
  case (Cons i order)
  show ?case
  proof (cases "length ps \<le> i")
    case True
    with Cons.prems(2) have "settle_all ps order vals remaining = Some (Fulfilled us)" by simp
    from Cons.IH[OF Cons.prems(1) this Cons.prems(3,4)] show ?thesis by simp
  next
    case inb: False
    show ?thesis
    proof (cases "ps ! i")
      case (Rejected e)
      with inb Cons.prems(2) show ?thesis by simp
    next
      case (Fulfilled x)
      show ?thesis
      proof (cases "vals ! i = None")
        case False
        with inb Fulfilled Cons.prems(2)
        have "settle_all ps order vals remaining = Some (Fulfilled us)" by simp
        from Cons.IH[OF Cons.prems(1) this Cons.prems(3,4)] show ?thesis by simp
      next
        case True
        have ok: "slots_ok ps (vals[i := Some x]) (remaining - 1)"
          using slots_ok_update[OF Cons.prems(1) _ Fulfilled True] inb by simp
        show ?thesis
        proof (cases "j = i")
          case True
          then show ?thesis by simp
        next
          case ji: False
          then have same: "vals[i := Some x] ! j = None" using Cons.prems(4) by simp
          show ?thesis
          proof (cases "remaining - 1 = 0")
            case True
            with ok have "slots_ok ps (vals[i := Some x]) 0" by simp
            from slots_none_empty[OF this Cons.prems(3)] same show ?thesis by simp
          next
            case False
            then have "settle_all ps order (vals[i := Some x]) (remaining - 1) = Some (Fulfilled us)"
              using Cons.prems(2) inb Fulfilled \<open>vals ! i = None\<close> by simp
            from Cons.IH[OF ok this Cons.prems(3) same] show ?thesis by simp
          qed
        qed
      qed
    qed
  qed
qed

lemma promise_all_fulfilled_complete:
  assumes "promise_all ps order = Some (Fulfilled us)" and "j < length ps"
  shows "j \<in> set order"
proof -
  from assms(2) have ne: "ps \<noteq> []" by auto
  with assms(1) have "settle_all ps order (replicate (length ps) None) (length ps) = Some (Fulfilled us)"
    by (simp add: promise_all_def)
  from settle_all_fulfilled_complete[OF slots_ok_start this assms(2)] assms(2)
  show ?thesis by simp
qed

lemma upload_all_fulfilled_complete:
  assumes "fst (upload_all ev t fs w) = Some (Fulfilled urls)"
  shows "all_complete ev t (length fs)"
  unfolding all_complete_def
proof (intro allI impI)
  fix i assume "i < length fs"
  with promise_all_fulfilled_complete[OF assms[unfolded upload_all_promise], of i]
  show "i \<in> set (completion ev t)" by simp
qed

lemma upload_all_pending:
  assumes "fst (upload_all ev t fs w) = None"
  shows "\<not> all_complete ev t (length fs)"
  using upload_all_settles[of ev t fs w] assms by blast

lemma upload_all_aligned:
  assumes "fst (upload_all ev t fs w) = Some (Fulfilled urls)"
  shows "aligned ev w t fs urls"
  unfolding aligned_def
proof (intro conjI allI impI)
  show "length urls = length fs" by (rule upload_all_fulfilled(1)[OF assms])
  fix i assume "i < length fs"
  from upload_all_fulfilled(2)[OF assms this]
  obtain res where "store_reply ev w t fs i = Inr res" "urls ! i = secure_url res" by blast
  then show "store_reply ev w t fs i = Inr \<lparr>secure_url = urls ! i\<rparr>" by simp
qed

lemma aligned_unique:
  assumes "aligned ev w t fs us" "aligned ev w t fs urls"
  shows "us = urls"
proof (rule nth_equalityI)
  show "length us = length urls" using assms by (simp add: aligned_def)
  fix i assume "i < length us"
  then have i: "i < length fs" using assms(1) by (simp add: aligned_def)
  from assms i have "Inr \<lparr>secure_url = us ! i\<rparr> = (Inr \<lparr>secure_url = urls ! i\<rparr> :: error + upload_result)"
    by (simp add: aligned_def)
  then show "us ! i = urls ! i" by simp
qed

lemma aligned_not_failed: "aligned ev w t fs urls \<Longrightarrow> \<not> failed ev w t fs cause"
  by (auto simp: aligned_def failed_def)

text \<open>What one upload step does: the world it leaves and the three ways it can end.\<close>

lemma upload_kind_world:
  "snd (upload_kind ev t fo w) = w\<lparr>cloud_log := cloud_log w @ calls t (the_files fo)\<rparr>"
proof (cases fo)
  case None
  then show ?thesis by (simp add: upload_kind_def calls_def)
next
  case (Some fs)
  then show ?thesis
    using upload_all_world[of ev t fs w] by (simp add: upload_kind_def calls_def split_beta)
qed

lemma upload_kind_result:
  "fst (upload_kind ev t fo w) = (case fo of None \<Rightarrow> Normal [] | Some fs \<Rightarrow> await (fst (upload_all ev t fs w)))"
  by (cases fo) (simp_all add: upload_kind_def split_beta)

lemma await_Normal: "await p = Normal v \<Longrightarrow> p = Some (Fulfilled v)"
  by (cases p rule: await.cases) simp_all

lemma await_Throw: "await p = Throw e \<Longrightarrow> p = Some (Rejected e)"
  by (cases p rule: await.cases) simp_all

lemma await_Pending: "await p = Pending \<Longrightarrow> p = None"
  by (cases p rule: await.cases) simp_all

lemma upload_kind_Normal:
  assumes "fst (upload_kind ev t fo w) = Normal urls"
  shows "aligned ev w t (the_files fo) urls \<and> all_complete ev t (length (the_files fo))"
proof (cases fo)
  case None
  with assms show ?thesis by (simp add: upload_kind_result aligned_def all_complete_def)
next
  case (Some fs)
  with assms have "fst (upload_all ev t fs w) = Some (Fulfilled urls)"
    by (simp add: upload_kind_result await_Normal)
  with Some upload_all_aligned upload_all_fulfilled_complete show ?thesis by simp
qed

lemma upload_kind_Throw:
  assumes "fst (upload_kind ev t fo w) = Throw cause"
  shows "reported ev w t (the_files fo) cause"
proof (cases fo)
  case None
  with assms show ?thesis by (simp add: upload_kind_result)
next
  case (Some fs)
  with assms have "fst (upload_all ev t fs w) = Some (Rejected cause)"
    by (simp add: upload_kind_result await_Throw)
  from upload_all_rejected_reported[OF this] Some show ?thesis by simp
qed

lemma upload_kind_Pending:
  assumes "fst (upload_kind ev t fo w) = Pending"
  shows "\<not> all_complete ev t (length (the_files fo)) \<and> (\<forall>c. \<not> reported ev w t (the_files fo) c)"
proof (cases fo)
  case None
  with assms show ?thesis by (simp add: upload_kind_result)
next
  case (Some fs)
  with assms have n: "fst (upload_all ev t fs w) = None"
    by (simp add: upload_kind_result await_Pending)
  have "\<forall>c. \<not> reported ev w t fs c"
  proof (intro allI notI)
    fix c assume "reported ev w t fs c"
    from upload_all_reported[OF this] n show False by simp
  qed
  with upload_all_pending[OF n] Some show ?thesis by simp
qed

text \<open>The handler on a request without a \<open>photo\<close> or \<open>video\<close> key.\<close>

lemma submit_form_no_key:
  assumes "\<not> has_key req"
  shows "submit_form ev req w = (Some bad_request, w)"
proof (cases "files req")
  case None
  then show ?thesis by (simp add: submit_form_def try_block_def)
next
  case (Some fs)
  with assms have "fs ''photo'' = None \<and> fs ''video'' = None" by (simp add: has_key_def)
  with Some show ?thesis by (simp add: submit_form_def try_block_def)
qed

text \<open>
  The handler on a request with a key. It ends in one of six ways: the photo batch is
  rejected or never settles; or it is fulfilled and the video batch is rejected or never
  settles; or both are fulfilled and \<open>save\<close> rejects or stores the document.
\<close>

lemma submit_form_cases:
  assumes key: "has_key req"
  shows
    "(\<exists>cause. reported ev w ''image'' (photo_files req) cause
        \<and> submit_form ev req w = (Some (went_wrong cause), after_photos req w))
   \<or> (\<not> all_complete ev ''image'' (length (photo_files req))
        \<and> (\<forall>c. \<not> reported ev w ''image'' (photo_files req) c)
        \<and> submit_form ev req w = (None, after_photos req w))
   \<or> (\<exists>pu. aligned ev w ''image'' (photo_files req) pu
        \<and> all_complete ev ''image'' (length (photo_files req))
        \<and> ((\<exists>cause. reported ev (after_photos req w) ''video'' (video_files req) cause
               \<and> submit_form ev req w = (Some (went_wrong cause), after_videos req w))
           \<or> (\<not> all_complete ev ''video'' (length (video_files req))
               \<and> (\<forall>c. \<not> reported ev (after_photos req w) ''video'' (video_files req) c)
               \<and> submit_form ev req w = (None, after_videos req w))
           \<or> (\<exists>vu. aligned ev (after_photos req w) ''video'' (video_files req) vu
               \<and> all_complete ev ''video'' (length (video_files req))
               \<and> ((\<exists>err. mongo_save ev (new_form req pu vu) = Some err
                      \<and> submit_form ev req w =
                          (Some (went_wrong err), save_invoked (new_form req pu vu) (after_videos req w)))
                  \<or> (mongo_save ev (new_form req pu vu) = None
                      \<and> submit_form ev req w =
                          (Some (submitted (new_form req pu vu)), stored (new_form req pu vu) (after_videos req w)))))))"
proof -
  from key obtain fs where fs: "files req = Some fs"
    and some: "\<not> (fs ''photo'' = None \<and> fs ''video'' = None)"
    by (auto simp: has_key_def split: option.splits)
  have ph: "photo_files req = the_files (fs ''photo'')" by (simp add: photo_files_def fs)
  have vs: "video_files req = the_files (fs ''video'')" by (simp add: video_files_def fs)
  define c1 where "c1 = fst (upload_kind ev ''image'' (fs ''photo'') w)"
  define c2 where "c2 = fst (upload_kind ev ''video'' (fs ''video'') (after_photos req w))"
  have "snd (upload_kind ev ''image'' (fs ''photo'') w) = after_photos req w"
    by (simp add: upload_kind_world after_photos_def ph)
  then have k1: "upload_kind ev ''image'' (fs ''photo'') w = (c1, after_photos req w)"
    by (simp add: c1_def prod_eq_iff)
  have "snd (upload_kind ev ''video'' (fs ''video'') (after_photos req w)) = after_videos req w"
    by (simp add: upload_kind_world after_photos_def after_videos_def ph vs)
  then have k2: "upload_kind ev ''video'' (fs ''video'') (after_photos req w) = (c2, after_videos req w)"
    by (simp add: c2_def prod_eq_iff)
  have tb: "try_block ev req w =
      and_then (c1, after_photos req w) (\<lambda>photoUrls w1.
      and_then (upload_kind ev ''video'' (fs ''video'') w1) (\<lambda>videoUrls w2.
        (case Form_save ev (new_form req photoUrls videoUrls) w2 of
           (Rejected err, w3) \<Rightarrow> (Throw err, w3)
         | (Fulfilled u, w3) \<Rightarrow> (Normal (submitted (new_form req photoUrls videoUrls)), w3))))"
  proof -
    have "try_block ev req w =
      and_then (upload_kind ev ''image'' (fs ''photo'') w) (\<lambda>photoUrls w1.
      and_then (upload_kind ev ''video'' (fs ''video'') w1) (\<lambda>videoUrls w2.
        let newForm = \<lparr>name = body req ''name'', address = body req ''address'',
                       photoUrls = photoUrls, videoUrls = videoUrls\<rparr>
        in (case Form_save ev newForm w2 of
              (Rejected err, w3) \<Rightarrow> (Throw err, w3)
            | (Fulfilled u, w3) \<Rightarrow> (Normal (submitted newForm), w3))))"
      by (simp only: try_block_def fs option.case if_not_P[OF some])
    then show ?thesis unfolding new_form_def by (simp add: k1 Let_def)
  qed
  show ?thesis
  proof (cases c1)
    case (Throw cause)
    then have "reported ev w ''image'' (photo_files req) cause"
      using upload_kind_Throw[of ev "''image''" "fs ''photo''" w cause] by (simp add: c1_def ph)
    moreover have "submit_form ev req w = (Some (went_wrong cause), after_photos req w)"
      by (simp add: submit_form_def tb Throw)
    ultimately show ?thesis by blast
  next
    case Pending
    then have "\<not> all_complete ev ''image'' (length (photo_files req))
        \<and> (\<forall>c. \<not> reported ev w ''image'' (photo_files req) c)"
      using upload_kind_Pending[of ev "''image''" "fs ''photo''" w] by (simp add: c1_def ph)
    moreover have "submit_form ev req w = (None, after_photos req w)"
      by (simp add: submit_form_def tb Pending)
    ultimately show ?thesis by blast
  next
    case (Normal pu)
    then have p: "aligned ev w ''image'' (photo_files req) pu
        \<and> all_complete ev ''image'' (length (photo_files req))"
      using upload_kind_Normal[of ev "''image''" "fs ''photo''" w pu] by (simp add: c1_def ph)
    have tb2: "try_block ev req w =
      and_then (c2, after_videos req w) (\<lambda>videoUrls w2.
        (case Form_save ev (new_form req pu videoUrls) w2 of
           (Rejected err, w3) \<Rightarrow> (Throw err, w3)
         | (Fulfilled u, w3) \<Rightarrow> (Normal (submitted (new_form req pu videoUrls)), w3)))"
      by (simp add: tb Normal k2)
    have "(\<exists>cause. reported ev (after_photos req w) ''video'' (video_files req) cause
               \<and> submit_form ev req w = (Some (went_wrong cause), after_videos req w))
           \<or> (\<not> all_complete ev ''video'' (length (video_files req))
               \<and> (\<forall>c. \<not> reported ev (after_photos req w) ''video'' (video_files req) c)
               \<and> submit_form ev req w = (None, after_videos req w))
           \<or> (\<exists>vu. aligned ev (after_photos req w) ''video'' (video_files req) vu
               \<and> all_complete ev ''video'' (length (video_files req))
               \<and> ((\<exists>err. mongo_save ev (new_form req pu vu) = Some err
                      \<and> submit_form ev req w =
                          (Some (went_wrong err), save_invoked (new_form req pu vu) (after_videos req w)))
                  \<or> (mongo_save ev (new_form req pu vu) = None
                      \<and> submit_form ev req w =
                          (Some (submitted (new_form req pu vu)), stored (new_form req pu vu) (after_videos req w)))))"
    proof (cases c2)
      case (Throw cause)
      then have "reported ev (after_photos req w) ''video'' (video_files req) cause"
        using upload_kind_Throw[of ev "''video''" "fs ''video''" "after_photos req w" cause]
        by (simp add: c2_def vs)
      moreover have "submit_form ev req w = (Some (went_wrong cause), after_videos req w)"
        by (simp add: submit_form_def tb2 Throw)
      ultimately show ?thesis by blast
    next
      case Pending
      then have "\<not> all_complete ev ''video'' (length (video_files req))
          \<and> (\<forall>c. \<not> reported ev (after_photos req w) ''video'' (video_files req) c)"
        using upload_kind_Pending[of ev "''video''" "fs ''video''" "after_photos req w"]
        by (simp add: c2_def vs)
      moreover have "submit_form ev req w = (None, after_videos req w)"
        by (simp add: submit_form_def tb2 Pending)
      ultimately show ?thesis by blast
    next
      case (Normal vu)
      then have v: "aligned ev (after_photos req w) ''video'' (video_files req) vu
          \<and> all_complete ev ''video'' (length (video_files req))"
        using upload_kind_Normal[of ev "''video''" "fs ''video''" "after_photos req w" vu]
        by (simp add: c2_def vs)
      have "(\<exists>err. mongo_save ev (new_form req pu vu) = Some err
                      \<and> submit_form ev req w =
                          (Some (went_wrong err), save_invoked (new_form req pu vu) (after_videos req w)))
                  \<or> (mongo_save ev (new_form req pu vu) = None
                      \<and> submit_form ev req w =
                          (Some (submitted (new_form req pu vu)), stored (new_form req pu vu) (after_videos req w)))"
      proof (cases "mongo_save ev (new_form req pu vu)")
        case None
        then have "submit_form ev req w =
            (Some (submitted (new_form req pu vu)), stored (new_form req pu vu) (after_videos req w))"
          by (simp add: submit_form_def tb2 Normal Form_save_def stored_def)
        with None show ?thesis by blast
      next
        case (Some err)
        then have "submit_form ev req w =
            (Some (went_wrong err), save_invoked (new_form req pu vu) (after_videos req w))"
          by (simp add: submit_form_def tb2 Normal Form_save_def save_invoked_def)
        with Some show ?thesis by blast
      qed
      with v show ?thesis by blast
    qed
    with p show ?thesis by blast
  qed
qed

lemma failed_photo_has_key:
  assumes "failed ev w t (photo_files req) cause"
  shows "has_key req"
proof -
  from assms have "photo_files req \<noteq> []" by (auto simp: failed_def)
  then show ?thesis
    by (cases "files req") (auto simp: photo_files_def has_key_def elim: the_files.elims)
qed

lemma failed_video_has_key:
  assumes "failed ev w t (video_files req) cause"
  shows "has_key req"
proof -
  from assms have "video_files req \<noteq> []" by (auto simp: failed_def)
  then show ?thesis
    by (cases "files req") (auto simp: video_files_def has_key_def elim: the_files.elims)
qed

lemma no_key_no_files:
  assumes "\<not> has_key req"
  shows "photo_files req = [] \<and> video_files req = []"
  using assms by (cases "files req") (auto simp: photo_files_def video_files_def has_key_def)

text \<open>A photo upload is answered with an error: the handler stops after the photo batch.\<close>

lemma submit_form_photo_failed:
  assumes f: "failed ev w ''image'' (photo_files req) cause"
  shows "(\<exists>c. reported ev w ''image'' (photo_files req) c
            \<and> submit_form ev req w = (Some (went_wrong c), after_photos req w))
       \<or> ((\<forall>c. \<not> reported ev w ''image'' (photo_files req) c)
            \<and> submit_form ev req w = (None, after_photos req w))"
proof -
  have no: "\<And>pu. \<not> aligned ev w ''image'' (photo_files req) pu"
    using aligned_not_failed f by blast
  from submit_form_cases[OF failed_photo_has_key[OF f], of ev w] no
  show ?thesis by blast
qed


text \<open>Both batches are fulfilled: the handler reaches \<open>save\<close>.\<close>

lemma submit_form_uploaded:
  assumes key: "has_key req"
    and p: "aligned ev w ''image'' (photo_files req) pu"
    and pc: "all_complete ev ''image'' (length (photo_files req))"
    and v: "aligned ev (after_photos req w) ''video'' (video_files req) vu"
    and vc: "all_complete ev ''video'' (length (video_files req))"
  shows "(\<exists>err. mongo_save ev (new_form req pu vu) = Some err
            \<and> submit_form ev req w =
                (Some (went_wrong err), save_invoked (new_form req pu vu) (after_videos req w)))
       \<or> (mongo_save ev (new_form req pu vu) = None
            \<and> submit_form ev req w =
                (Some (submitted (new_form req pu vu)), stored (new_form req pu vu) (after_videos req w)))"
proof -
  have nop: "\<And>c. \<not> reported ev w ''image'' (photo_files req) c"
    using aligned_not_failed[OF p] reported_failed by blast
  have nov: "\<And>c. \<not> reported ev (after_photos req w) ''video'' (video_files req) c"
    using aligned_not_failed[OF v] reported_failed by blast
  from submit_form_cases[OF key, of ev w] nop nov pc vc
  obtain pu' vu' where p': "aligned ev w ''image'' (photo_files req) pu'"
    and v': "aligned ev (after_photos req w) ''video'' (video_files req) vu'"
    and r: "(\<exists>err. mongo_save ev (new_form req pu' vu') = Some err
            \<and> submit_form ev req w =
                (Some (went_wrong err), save_invoked (new_form req pu' vu') (after_videos req w)))
       \<or> (mongo_save ev (new_form req pu' vu') = None
            \<and> submit_form ev req w =
                (Some (submitted (new_form req pu' vu')), stored (new_form req pu' vu') (after_videos req w)))"
    by blast
  have "pu' = pu" using p' p by (rule aligned_unique)
  moreover have "vu' = vu" using v' v by (rule aligned_unique)
  ultimately show ?thesis using r by simp
qed



lemma submit_form_log:
  "cloud_log (snd (submit_form ev req w)) = cloud_log w @ calls ''image'' (photo_files req)
   \<or> (cloud_log (snd (submit_form ev req w)) =
         cloud_log w @ calls ''image'' (photo_files req) @ calls ''video'' (video_files req)
       \<and> all_complete ev ''image'' (length (photo_files req))
       \<and> (\<exists>pu. aligned ev w ''image'' (photo_files req) pu))"
proof (cases "has_key req")
  case False
  from submit_form_no_key[OF this, of ev w] no_key_no_files[OF False]
  show ?thesis by (simp add: calls_def)
next
  case True
  have a: "cloud_log (after_photos req w) = cloud_log w @ calls ''image'' (photo_files req)"
    by (simp add: after_photos_def)
  have b: "cloud_log (after_videos req w) =
      cloud_log w @ calls ''image'' (photo_files req) @ calls ''video'' (video_files req)"
    by (simp add: after_videos_def)
  have c: "\<And>doc. cloud_log (save_invoked doc (after_videos req w)) = cloud_log (after_videos req w)"
    by (simp add: save_invoked_def)
  have d: "\<And>doc. cloud_log (stored doc (after_videos req w)) = cloud_log (after_videos req w)"
    by (simp add: stored_def)
  from submit_form_cases[OF True, of ev w]
  consider "snd (submit_form ev req w) = after_photos req w"
    | pu where "aligned ev w ''image'' (photo_files req) pu"
        "all_complete ev ''image'' (length (photo_files req))"
        "cloud_log (snd (submit_form ev req w)) = cloud_log (after_videos req w)"
    using c d by fastforce
  then show ?thesis
  proof cases
    case 1
    with a show ?thesis by simp
  next
    case 2
    with b show ?thesis by auto
  qed
qed

text \<open>The handler changes the collection only by storing the document it built.\<close>

lemma submit_form_db:
  "db (snd (submit_form ev req w)) = db w
   \<or> (has_key req
       \<and> all_complete ev ''image'' (length (photo_files req))
       \<and> all_complete ev ''video'' (length (video_files req))
       \<and> (\<exists>pu vu. aligned ev w ''image'' (photo_files req) pu
             \<and> aligned ev (after_photos req w) ''video'' (video_files req) vu
             \<and> mongo_save ev (new_form req pu vu) = None
             \<and> db (snd (submit_form ev req w)) = db w @ [new_form req pu vu]))"
proof (cases "has_key req")
  case False
  from submit_form_no_key[OF this, of ev w] show ?thesis by simp
next
  case True
  have a: "db (after_photos req w) = db w \<and> save_log (after_photos req w) = save_log w"
    by (simp add: after_photos_def)
  have b: "db (after_videos req w) = db w \<and> save_log (after_videos req w) = save_log w"
    by (simp add: after_videos_def)
  have c: "\<And>doc. db (save_invoked doc (after_videos req w)) = db w"
    by (simp add: save_invoked_def after_videos_def)
  have d: "\<And>doc. db (stored doc (after_videos req w)) = db w @ [doc]"
    by (simp add: stored_def after_videos_def)
  from submit_form_cases[OF True, of ev w]
  consider "snd (submit_form ev req w) = after_photos req w"
    | "snd (submit_form ev req w) = after_videos req w"
    | pu vu err where "mongo_save ev (new_form req pu vu) = Some err"
        "snd (submit_form ev req w) = save_invoked (new_form req pu vu) (after_videos req w)"
    | pu vu where "aligned ev w ''image'' (photo_files req) pu"
        "all_complete ev ''image'' (length (photo_files req))"
        "aligned ev (after_photos req w) ''video'' (video_files req) vu"
        "all_complete ev ''video'' (length (video_files req))"
        "mongo_save ev (new_form req pu vu) = None"
        "snd (submit_form ev req w) = stored (new_form req pu vu) (after_videos req w)"
    by fastforce
  then show ?thesis
  proof cases
    case 1
    with a show ?thesis by simp
  next
    case 2
    with b show ?thesis by simp
  next
    case 3
    with c show ?thesis by auto
  next
    case 4
    with d True show ?thesis by auto
  qed
qed

lemma submit_form_upload_failed:
  assumes "failed ev w ''image'' (photo_files req) cause
         \<or> failed ev (after_photos req w) ''video'' (video_files req) cause"
  shows "save_log (snd (submit_form ev req w)) = save_log w \<and> db (snd (submit_form ev req w)) = db w"
proof -
  have key: "has_key req" using assms failed_photo_has_key failed_video_has_key by blast
  have no: "\<not> (\<exists>pu vu. aligned ev w ''image'' (photo_files req) pu
             \<and> aligned ev (after_photos req w) ''video'' (video_files req) vu)"
    using assms aligned_not_failed by blast
  have a: "db (after_photos req w) = db w \<and> save_log (after_photos req w) = save_log w"
    by (simp add: after_photos_def)
  have b: "db (after_videos req w) = db w \<and> save_log (after_videos req w) = save_log w"
    by (simp add: after_videos_def)
  from submit_form_cases[OF key, of ev w] no
  have "snd (submit_form ev req w) = after_photos req w
      \<or> snd (submit_form ev req w) = after_videos req w"
    by fastforce
  with a b show ?thesis by auto
qed

section \<open>The example submissions, run\<close>

lemma upload_all_A: "fst (upload_all env_A ''image'' [p1, p2] world0) = Some (Fulfilled [''U_p1'', ''U_p2''])"
  by (simp add: upload_all_def uploadToCloudinary_def promise_all_def env_A_def store_A_def
      world0_def p1_def p2_def)

lemma upload_all_B:
  "fst (upload_all env_B ''image'' [p1, p2] world0) = Some (Rejected (Error ''upload failed''))"
  by (simp add: upload_all_def uploadToCloudinary_def promise_all_def env_B_def env_A_def
      store_B_def store_A_def world0_def p1_def p2_def)

lemma files_A: "photo_files req_A = [p1, p2] \<and> video_files req_A = [v1] \<and> has_key req_A"
  by (simp add: photo_files_def video_files_def has_key_def req_A_def)

lemma aligned_photos_A: "aligned env_A world0 ''image'' [p1, p2] [''U_p1'', ''U_p2'']"
  by (simp add: aligned_def store_reply_def env_A_def store_A_def world0_def p1_def p2_def less_Suc_eq)

lemma aligned_videos_A: "aligned env_A (after_photos req_A world0) ''video'' [v1] [''U_v1'']"
  by (simp add: aligned_def store_reply_def env_A_def store_A_def v1_def)

lemma all_complete_A: "all_complete env_A t (Suc (Suc 0)) \<and> all_complete env_A t (Suc 0)"
  by (simp add: all_complete_def env_A_def less_Suc_eq)

lemma new_form_A: "new_form req_A [''U_p1'', ''U_p2''] [''U_v1''] = form_A"
  by (simp add: new_form_def req_A_def form_A_def)

lemma failed_photos_B:
  "failed env_B world0 ''image'' [p1, p2] c \<longleftrightarrow> c = Error ''upload failed''"
  by (auto simp: failed_def store_reply_def env_B_def env_A_def store_B_def store_A_def
      world0_def less_Suc_eq)





lemmas handler_defs =
  submit_form_def try_block_def upload_kind_def upload_all_def promise_all_def
  uploadToCloudinary_def Form_save_def submitted_def went_wrong_def bad_request_def

section \<open>The claims\<close>

subsection \<open>C1\<close>

text \<open>
  Claim C1. The URLs the upload fan-out of one kind produces are index-aligned with the
  input. Whatever the order in which the uploads call back, when the fan-out is fulfilled
  with \<open>urls\<close>, then \<open>urls\<close> is as long as the input and \<open>urls ! i\<close> is the
  \<open>secure_url\<close> the Object Store returned for the file at position \<open>i\<close>. And the
  fan-out is fulfilled whenever every upload calls back and is answered with a result.
\<close>

theorem upload_all_index_aligned:
  "(\<forall>urls. fst (upload_all ev t fs w) = Some (Fulfilled urls) \<longrightarrow>
       length urls = length fs \<and>
       (\<forall>i<length fs. \<exists>res. store_reply ev w t fs i = Inr res \<and> urls ! i = secure_url res))
   \<and> (all_complete ev t (length fs) \<and> (\<forall>i<length fs. \<exists>res. store_reply ev w t fs i = Inr res) \<longrightarrow>
       (\<exists>urls. fst (upload_all ev t fs w) = Some (Fulfilled urls)))"
proof -
  have aligned: "\<forall>urls. fst (upload_all ev t fs w) = Some (Fulfilled urls) \<longrightarrow>
       length urls = length fs \<and>
       (\<forall>i<length fs. \<exists>res. store_reply ev w t fs i = Inr res \<and> urls ! i = secure_url res)"
    using upload_all_fulfilled[of ev t fs w] by blast
  have succeeds: "all_complete ev t (length fs) \<and> (\<forall>i<length fs. \<exists>res. store_reply ev w t fs i = Inr res) \<longrightarrow>
       (\<exists>urls. fst (upload_all ev t fs w) = Some (Fulfilled urls))"
    using upload_all_succeeds[of ev t fs w] by blast
  from aligned succeeds show ?thesis by (rule conjI)
qed

theorem upload_all_index_aligned_witness:
  "completion env_A ''image'' = [1, 0]
   \<and> fst (upload_all env_A ''image'' [p1, p2] world0) = Some (Fulfilled [''U_p1'', ''U_p2''])
   \<and> length [''U_p1'', ''U_p2''] = length [p1, p2]
   \<and> (\<exists>res. store_reply env_A world0 ''image'' [p1, p2] 0 = Inr res \<and> ''U_p1'' = secure_url res)
   \<and> (\<exists>res. store_reply env_A world0 ''image'' [p1, p2] 1 = Inr res \<and> ''U_p2'' = secure_url res)"
proof -
  have order: "completion env_A ''image'' = [1, 0]" by (simp add: env_A_def)
  note run = upload_all_A
  from upload_all_index_aligned[of env_A "''image''" "[p1, p2]" world0] run
  have all: "length [''U_p1'', ''U_p2''] = length [p1, p2]
     \<and> (\<forall>i<length [p1, p2]. \<exists>res. store_reply env_A world0 ''image'' [p1, p2] i = Inr res
          \<and> [''U_p1'', ''U_p2''] ! i = secure_url res)"
    by blast
  then have each: "\<And>i. i < length [p1, p2] \<Longrightarrow>
      \<exists>res. store_reply env_A world0 ''image'' [p1, p2] i = Inr res
        \<and> [''U_p1'', ''U_p2''] ! i = secure_url res" by blast
  have "\<exists>res. store_reply env_A world0 ''image'' [p1, p2] 0 = Inr res
      \<and> [''U_p1'', ''U_p2''] ! 0 = secure_url res" by (rule each) simp
  then have first: "\<exists>res. store_reply env_A world0 ''image'' [p1, p2] 0 = Inr res
      \<and> ''U_p1'' = secure_url res" by simp
  have "\<exists>res. store_reply env_A world0 ''image'' [p1, p2] 1 = Inr res
      \<and> [''U_p1'', ''U_p2''] ! 1 = secure_url res" by (rule each) simp
  then have second: "\<exists>res. store_reply env_A world0 ''image'' [p1, p2] 1 = Inr res
      \<and> ''U_p2'' = secure_url res" by simp
  from order run all first second show ?thesis by blast
qed

subsection \<open>C2\<close>

text \<open>
  Claim C2, as amended. A record is persisted if and only if the request has a photo or
  video key, every upload calls back with a result and the save succeeds. Whenever an
  upload is answered with an error, \<open>save\<close> is not invoked and the collection is unchanged.
\<close>

theorem record_persisted_iff:
  "((failed ev w ''image'' (photo_files req) cause
       \<or> failed ev (after_photos req w) ''video'' (video_files req) cause) \<longrightarrow>
      save_log (snd (submit_form ev req w)) = save_log w
      \<and> db (snd (submit_form ev req w)) = db w)
   \<and> (db (snd (submit_form ev req w)) \<noteq> db w \<longleftrightarrow>
        has_key req
        \<and> all_complete ev ''image'' (length (photo_files req))
        \<and> all_complete ev ''video'' (length (video_files req))
        \<and> (\<exists>pu vu. aligned ev w ''image'' (photo_files req) pu
              \<and> aligned ev (after_photos req w) ''video'' (video_files req) vu
              \<and> mongo_save ev (new_form req pu vu) = None))"
proof -
  have never: "(failed ev w ''image'' (photo_files req) cause
       \<or> failed ev (after_photos req w) ''video'' (video_files req) cause) \<longrightarrow>
      save_log (snd (submit_form ev req w)) = save_log w
      \<and> db (snd (submit_form ev req w)) = db w"
    using submit_form_upload_failed by blast
  have only_if: "db (snd (submit_form ev req w)) \<noteq> db w \<Longrightarrow>
        has_key req
        \<and> all_complete ev ''image'' (length (photo_files req))
        \<and> all_complete ev ''video'' (length (video_files req))
        \<and> (\<exists>pu vu. aligned ev w ''image'' (photo_files req) pu
              \<and> aligned ev (after_photos req w) ''video'' (video_files req) vu
              \<and> mongo_save ev (new_form req pu vu) = None)"
    using submit_form_db[of ev req w] by blast
  have "if": "has_key req
        \<and> all_complete ev ''image'' (length (photo_files req))
        \<and> all_complete ev ''video'' (length (video_files req))
        \<and> (\<exists>pu vu. aligned ev w ''image'' (photo_files req) pu
              \<and> aligned ev (after_photos req w) ''video'' (video_files req) vu
              \<and> mongo_save ev (new_form req pu vu) = None)
      \<Longrightarrow> db (snd (submit_form ev req w)) \<noteq> db w"
  proof -
    assume a: "has_key req
        \<and> all_complete ev ''image'' (length (photo_files req))
        \<and> all_complete ev ''video'' (length (video_files req))
        \<and> (\<exists>pu vu. aligned ev w ''image'' (photo_files req) pu
              \<and> aligned ev (after_photos req w) ''video'' (video_files req) vu
              \<and> mongo_save ev (new_form req pu vu) = None)"
    then obtain pu vu where key: "has_key req"
      and pc: "all_complete ev ''image'' (length (photo_files req))"
      and vc: "all_complete ev ''video'' (length (video_files req))"
      and p: "aligned ev w ''image'' (photo_files req) pu"
      and v: "aligned ev (after_photos req w) ''video'' (video_files req) vu"
      and s: "mongo_save ev (new_form req pu vu) = None" by blast
    from submit_form_uploaded[OF key p pc v vc] s
    have "snd (submit_form ev req w) = stored (new_form req pu vu) (after_videos req w)" by auto
    then show "db (snd (submit_form ev req w)) \<noteq> db w"
      by (simp add: stored_def after_videos_def)
  qed
  from never only_if "if" show ?thesis by blast
qed

text \<open>
  Scenario A persists its record: the right-hand side of the equivalence holds and the
  collection has changed.
\<close>

theorem record_persisted_iff_witness:
  "has_key req_A
   \<and> aligned env_A world0 ''image'' (photo_files req_A) [''U_p1'', ''U_p2'']
   \<and> aligned env_A (after_photos req_A world0) ''video'' (video_files req_A) [''U_v1'']
   \<and> mongo_save env_A (new_form req_A [''U_p1'', ''U_p2''] [''U_v1'']) = None
   \<and> db (snd (submit_form env_A req_A world0)) \<noteq> db world0
   \<and> failed env_B world0 ''image'' (photo_files req_A) (Error ''upload failed'')
   \<and> save_log (snd (submit_form env_B req_A world0)) = []
   \<and> db (snd (submit_form env_B req_A world0)) = []"
proof -
  have key: "has_key req_A" using files_A by simp
  have p: "aligned env_A world0 ''image'' (photo_files req_A) [''U_p1'', ''U_p2'']"
    using aligned_photos_A files_A by simp
  have pc: "all_complete env_A ''image'' (length (photo_files req_A))"
    using all_complete_A files_A by simp
  have v: "aligned env_A (after_photos req_A world0) ''video'' (video_files req_A) [''U_v1'']"
    using aligned_videos_A files_A by simp
  have vc: "all_complete env_A ''video'' (length (video_files req_A))"
    using all_complete_A files_A by simp
  have s: "mongo_save env_A (new_form req_A [''U_p1'', ''U_p2''] [''U_v1'']) = None"
    by (simp add: env_A_def)
  from record_persisted_iff[of env_A world0 req_A "Error ''upload failed''"] key p pc v vc s
  have changed: "db (snd (submit_form env_A req_A world0)) \<noteq> db world0" by blast
  have f: "failed env_B world0 ''image'' (photo_files req_A) (Error ''upload failed'')"
    using failed_photos_B files_A by simp
  from record_persisted_iff[of env_B world0 req_A "Error ''upload failed''"] f
  have "save_log (snd (submit_form env_B req_A world0)) = save_log world0
      \<and> db (snd (submit_form env_B req_A world0)) = db world0" by blast
  then have same: "save_log (snd (submit_form env_B req_A world0)) = []
      \<and> db (snd (submit_form env_B req_A world0)) = []" by (simp add: world0_def)
  from key p v s changed f same show ?thesis by blast
qed

text \<open>
  The claim as the specification states it fails: the only attachment of the submission
  is uploaded, the save is rejected, and no record is persisted.
\<close>

theorem record_persisted_iff_uploaded_counterexample:
  "photo_files req_one_photo = [p1] \<and> video_files req_one_photo = []
   \<and> store_reply env_save_fails world0 ''image'' [p1] 0 = Inr \<lparr>secure_url = ''U_p1''\<rparr>
   \<and> submit_form env_save_fails req_one_photo world0 =
       (Some \<lparr>status = 500,
              json = JObject [(''message'', JString ''Something went wrong''),
                              (''error'', JString ''save failed'')]\<rparr>,
        \<lparr>cloud_log = [([1], ''image'')],
         save_log = [\<lparr>name = Some ''Ada'', address = None,
                      photoUrls = [''U_p1''], videoUrls = []\<rparr>],
         db = []\<rparr>)"
  by (simp add: handler_defs photo_files_def video_files_def store_reply_def
      req_one_photo_def env_save_fails_def env_A_def store_A_def world0_def p1_def)

subsection \<open>C3\<close>

text \<open>
  Claim C3. The upload fan-out is all-or-nothing. When the upload of one file of the batch
  is answered with an error, the fan-out is never fulfilled, so no list of URLs, partial
  or not, reaches the caller; once that upload has called back, the fan-out is rejected,
  with the error an upload of the batch called back with; and when the failed upload is
  the only one of the batch that is answered with an error, with its error.
\<close>

theorem upload_all_all_or_nothing:
  assumes "i < length fs" and "store_reply ev w t fs i = Inl err"
  shows "(\<forall>urls. fst (upload_all ev t fs w) \<noteq> Some (Fulfilled urls))
     \<and> (i \<in> set (completion ev t) \<longrightarrow>
          (\<exists>cause. reported ev w t fs cause
              \<and> fst (upload_all ev t fs w) = Some (Rejected cause)))
     \<and> (i \<in> set (completion ev t)
          \<and> (\<forall>j<length fs. j \<noteq> i \<longrightarrow> (\<exists>res. store_reply ev w t fs j = Inr res)) \<longrightarrow>
          fst (upload_all ev t fs w) = Some (Rejected err))"
proof -
  have never: "\<forall>urls. fst (upload_all ev t fs w) \<noteq> Some (Fulfilled urls)"
    using upload_all_not_fulfilled[OF assms] by blast
  have fails: "i \<in> set (completion ev t) \<longrightarrow>
          (\<exists>cause. reported ev w t fs cause
              \<and> fst (upload_all ev t fs w) = Some (Rejected cause))"
    using upload_all_fails[OF assms] by blast
  have only: "i \<in> set (completion ev t)
          \<and> (\<forall>j<length fs. j \<noteq> i \<longrightarrow> (\<exists>res. store_reply ev w t fs j = Inr res)) \<longrightarrow>
          fst (upload_all ev t fs w) = Some (Rejected err)"
  proof
    assume a: "i \<in> set (completion ev t)
          \<and> (\<forall>j<length fs. j \<noteq> i \<longrightarrow> (\<exists>res. store_reply ev w t fs j = Inr res))"
    with upload_all_fails[OF assms] obtain cause where rep: "reported ev w t fs cause"
      and res: "fst (upload_all ev t fs w) = Some (Rejected cause)" by blast
    from rep obtain j where j: "j < length fs"
      and jr: "store_reply ev w t fs j = Inl cause" unfolding reported_def by blast
    have "j = i"
    proof (rule ccontr)
      assume "j \<noteq> i"
      with a j obtain res where "store_reply ev w t fs j = Inr res" by blast
      with jr show False by simp
    qed
    with jr assms(2) have "cause = err" by simp
    with res show "fst (upload_all ev t fs w) = Some (Rejected err)" by simp
  qed
  from never fails only show ?thesis by blast
qed

theorem upload_all_all_or_nothing_witness:
  "0 < length [p1, p2]
   \<and> store_reply env_B world0 ''image'' [p1, p2] 0 = Inl (Error ''upload failed'')
   \<and> completion env_B ''image'' = [1, 0]
   \<and> store_reply env_B world0 ''image'' [p1, p2] 1 = Inr \<lparr>secure_url = ''U_p2''\<rparr>
   \<and> (\<forall>urls. fst (upload_all env_B ''image'' [p1, p2] world0) \<noteq> Some (Fulfilled urls))
   \<and> fst (upload_all env_B ''image'' [p1, p2] world0) = Some (Rejected (Error ''upload failed''))"
proof -
  have n: "0 < length [p1, p2]" by simp
  have r0: "store_reply env_B world0 ''image'' [p1, p2] 0 = Inl (Error ''upload failed'')"
    by (simp add: store_reply_def env_B_def env_A_def store_B_def world0_def)
  have r1: "store_reply env_B world0 ''image'' [p1, p2] 1 = Inr \<lparr>secure_url = ''U_p2''\<rparr>"
    by (simp add: store_reply_def env_B_def env_A_def store_B_def store_A_def world0_def p2_def)
  have order: "completion env_B ''image'' = [1, 0]"
    by (simp add: env_B_def env_A_def)
  then have c: "0 \<in> set (completion env_B ''image'')" by simp
  have others: "\<forall>j<length [p1, p2]. j \<noteq> 0 \<longrightarrow> (\<exists>res. store_reply env_B world0 ''image'' [p1, p2] j = Inr res)"
    using r1 by (simp add: less_Suc_eq)
  from upload_all_all_or_nothing[OF n r0] c others
  have "(\<forall>urls. fst (upload_all env_B ''image'' [p1, p2] world0) \<noteq> Some (Fulfilled urls))
      \<and> fst (upload_all env_B ''image'' [p1, p2] world0) = Some (Rejected (Error ''upload failed''))"
    by blast
  with n r0 r1 order show ?thesis by blast
qed

subsection \<open>C4\<close>

text \<open>
  Claim C4. A submission, as multer hands it to the handler, whose photo collection and
  video collection are both empty is answered 400 with the message
  \<open>At least one photo or video is required\<close>, and the world is unchanged: the
  rejection comes before any call to the Object Store, and nothing is saved.
\<close>

theorem no_attachment_rejected:
  assumes "multer_built req" and "photo_files req = []" and "video_files req = []"
  shows "submit_form ev req w =
           (Some \<lparr>status = 400,
                  json = JObject [(''message'', JString ''At least one photo or video is required'')]\<rparr>,
            w)"
proof -
  have nk: "\<not> has_key req"
  proof (cases "files req")
    case None
    then show ?thesis by (simp add: has_key_def)
  next
    case (Some fs)
    from assms(1) Some have built: "fs ''photo'' \<noteq> Some []" "fs ''video'' \<noteq> Some []"
      by (simp_all add: multer_built_def)
    from assms(2) Some have "the_files (fs ''photo'') = []" by (simp add: photo_files_def)
    with built(1) have p: "fs ''photo'' = None" by (cases "fs ''photo''") simp_all
    from assms(3) Some have "the_files (fs ''video'') = []" by (simp add: video_files_def)
    with built(2) have v: "fs ''video'' = None" by (cases "fs ''video''") simp_all
    from Some p v show ?thesis by (simp add: has_key_def)
  qed
  from submit_form_no_key[OF nk, of ev w] show ?thesis by (simp add: bad_request_def)
qed

text \<open>A request that is not multipart, and a multipart request without a file part.\<close>

theorem no_attachment_rejected_witness:
  "multer_built req_no_files \<and> photo_files req_no_files = [] \<and> video_files req_no_files = []
   \<and> submit_form env_A req_no_files world0 =
       (Some \<lparr>status = 400,
              json = JObject [(''message'', JString ''At least one photo or video is required'')]\<rparr>,
        world0)
   \<and> multer_built req_no_parts \<and> photo_files req_no_parts = [] \<and> video_files req_no_parts = []
   \<and> submit_form env_A req_no_parts world0 =
       (Some \<lparr>status = 400,
              json = JObject [(''message'', JString ''At least one photo or video is required'')]\<rparr>,
        world0)
   \<and> cloud_log world0 = []"
proof -
  have b1: "multer_built req_no_files"
    by (simp add: multer_built_def req_no_files_def)
  have p1: "photo_files req_no_files = []" by (simp add: photo_files_def req_no_files_def)
  have v1: "video_files req_no_files = []" by (simp add: video_files_def req_no_files_def)
  have b2: "multer_built req_no_parts"
    by (simp add: multer_built_def req_no_parts_def)
  have p2: "photo_files req_no_parts = []" by (simp add: photo_files_def req_no_parts_def)
  have v2: "video_files req_no_parts = []" by (simp add: video_files_def req_no_parts_def)
  have w0: "cloud_log world0 = []" by (simp add: world0_def)
  from no_attachment_rejected[OF b1 p1 v1, of env_A world0]
    no_attachment_rejected[OF b2 p2 v2, of env_A world0]
    b1 p1 v1 b2 p2 v2 w0
  show ?thesis by blast
qed

subsection \<open>C5\<close>

text \<open>
  Claim C5. For a kind whose collection is absent or empty, the upload step yields the
  empty URL sequence and leaves the world as it was: no call to the Object Store is made.
\<close>

theorem upload_kind_empty:
  assumes "fo = None \<or> fo = Some []"
  shows "upload_kind ev t fo w = (Normal [], w)"
  using assms by (auto simp: upload_kind_def upload_all_def promise_all_def)

theorem upload_kind_empty_witness:
  "upload_kind env_A ''image'' None world0 = (Normal [], world0)
   \<and> upload_kind env_A ''video'' (Some []) world0 = (Normal [], world0)
   \<and> cloud_log world0 = []"
  using upload_kind_empty[of None env_A "''image''" world0]
    upload_kind_empty[of "Some []" env_A "''video''" world0]
  by (simp add: world0_def)

subsection \<open>C6\<close>

text \<open>
  Claim C6. When the request has a key, every upload calls back with a result (\<open>pu\<close> the
  URLs of the photos, \<open>vu\<close> those of the videos, in input order) and the save succeeds, the
  response is 200 with the message and the document; the document has the name and
  address of the request and the two URL sequences; it is the one stored.
\<close>

theorem submit_form_success:
  assumes "has_key req"
    and "aligned ev w ''image'' (photo_files req) pu"
    and "all_complete ev ''image'' (length (photo_files req))"
    and "aligned ev (after_photos req w) ''video'' (video_files req) vu"
    and "all_complete ev ''video'' (length (video_files req))"
    and "mongo_save ev (new_form req pu vu) = None"
    and "submit_form ev req w = (res, w')"
  shows "res = Some \<lparr>status = 200,
                     json = JObject [(''message'', JString ''Form submitted successfully!''),
                                     (''form'', JForm (new_form req pu vu))]\<rparr>
       \<and> new_form req pu vu = \<lparr>name = body req ''name'', address = body req ''address'',
                                photoUrls = pu, videoUrls = vu\<rparr>
       \<and> db w' = db w @ [new_form req pu vu]
       \<and> save_log w' = save_log w @ [new_form req pu vu]"
proof -
  from submit_form_uploaded[OF assms(1-5)] assms(6)
  have "submit_form ev req w =
      (Some (submitted (new_form req pu vu)), stored (new_form req pu vu) (after_videos req w))"
    by simp
  with assms(7) have "res = Some (submitted (new_form req pu vu))"
    and "w' = stored (new_form req pu vu) (after_videos req w)" by simp_all
  then show ?thesis
    by (simp add: submitted_def stored_def after_videos_def new_form_def)
qed

theorem submit_form_success_witness:
  "fst (submit_form env_A req_A world0) =
      Some \<lparr>status = 200,
            json = JObject [(''message'', JString ''Form submitted successfully!''),
                            (''form'', JForm form_A)]\<rparr>
   \<and> form_A = \<lparr>name = Some ''Ada'', address = Some ''1 Infinite Loop'',
               photoUrls = [''U_p1'', ''U_p2''], videoUrls = [''U_v1'']\<rparr>
   \<and> db (snd (submit_form env_A req_A world0)) = [form_A]"
proof -
  have key: "has_key req_A" using files_A by simp
  have p: "aligned env_A world0 ''image'' (photo_files req_A) [''U_p1'', ''U_p2'']"
    using aligned_photos_A files_A by simp
  have pc: "all_complete env_A ''image'' (length (photo_files req_A))"
    using all_complete_A files_A by simp
  have v: "aligned env_A (after_photos req_A world0) ''video'' (video_files req_A) [''U_v1'']"
    using aligned_videos_A files_A by simp
  have vc: "all_complete env_A ''video'' (length (video_files req_A))"
    using all_complete_A files_A by simp
  have s: "mongo_save env_A (new_form req_A [''U_p1'', ''U_p2''] [''U_v1'']) = None"
    by (simp add: env_A_def)
  have r: "submit_form env_A req_A world0 =
      (fst (submit_form env_A req_A world0), snd (submit_form env_A req_A world0))" by simp
  from submit_form_success[OF key p pc v vc s r]
  show ?thesis by (simp add: new_form_A form_A_def world0_def)
qed

subsection \<open>C7\<close>



subsection \<open>C8\<close>

text \<open>
  Claim C8. \<open>GET /forms\<close> answers 200 with the array of the documents stored in the
  collection when \<open>find\<close> resolves, and 500 with the message when \<open>find\<close> rejects.
\<close>

theorem get_forms_response:
  "(mongo_find ev = None \<longrightarrow>
      get_forms ev w = \<lparr>status = 200, json = JArray (map JForm (db w))\<rparr>)
   \<and> (\<forall>err. mongo_find ev = Some err \<longrightarrow>
      get_forms ev w = \<lparr>status = 500, json = JObject [(''message'', JString ''Error fetching forms'')]\<rparr>)"
  by (simp add: get_forms_def Form_find_def)

theorem get_forms_response_witness:
  "get_forms env_A (world0\<lparr>db := [form_A]\<rparr>) = \<lparr>status = 200, json = JArray [JForm form_A]\<rparr>
   \<and> get_forms env_find_fails (world0\<lparr>db := [form_A]\<rparr>) =
       \<lparr>status = 500, json = JObject [(''message'', JString ''Error fetching forms'')]\<rparr>"
proof -
  have a: "mongo_find env_A = None" by (simp add: env_A_def)
  have b: "mongo_find env_find_fails = Some (Error ''find failed'')"
    by (simp add: env_find_fails_def)
  from get_forms_response[of env_A "world0\<lparr>db := [form_A]\<rparr>"] a
    get_forms_response[of env_find_fails "world0\<lparr>db := [form_A]\<rparr>"] b
  show ?thesis by simp
qed

subsection \<open>C9\<close>

text \<open>
  Claim C9. The video uploads are started only after the photo batch was fulfilled. When
  a photo upload is answered with an error, the upload calls of the submission are those
  of its photos, all of resource type \<open>image\<close>: no call is made for a video. In every
  case the calls are those of the photos, or those of the photos followed by those of the
  videos, and the latter only when every photo upload has called back with a result.
\<close>

theorem photos_before_videos:
  "(failed ev w ''image'' (photo_files req) cause \<longrightarrow>
      cloud_log (snd (submit_form ev req w)) = cloud_log w @ calls ''image'' (photo_files req)
      \<and> (\<forall>c \<in> set (calls ''image'' (photo_files req)). snd c = ''image''))
   \<and> (cloud_log (snd (submit_form ev req w)) = cloud_log w @ calls ''image'' (photo_files req)
      \<or> (cloud_log (snd (submit_form ev req w)) =
            cloud_log w @ calls ''image'' (photo_files req) @ calls ''video'' (video_files req)
          \<and> all_complete ev ''image'' (length (photo_files req))
          \<and> (\<exists>pu. aligned ev w ''image'' (photo_files req) pu)))"
proof -
  have stop: "failed ev w ''image'' (photo_files req) cause \<longrightarrow>
      cloud_log (snd (submit_form ev req w)) = cloud_log w @ calls ''image'' (photo_files req)
      \<and> (\<forall>c \<in> set (calls ''image'' (photo_files req)). snd c = ''image'')"
  proof
    assume f: "failed ev w ''image'' (photo_files req) cause"
    from submit_form_photo_failed[OF f]
    have "snd (submit_form ev req w) = after_photos req w" by auto
    then have "cloud_log (snd (submit_form ev req w)) = cloud_log w @ calls ''image'' (photo_files req)"
      by (simp add: after_photos_def)
    moreover have "\<forall>c \<in> set (calls ''image'' (photo_files req)). snd c = ''image''"
      by (auto simp: calls_def)
    ultimately show "cloud_log (snd (submit_form ev req w)) = cloud_log w @ calls ''image'' (photo_files req)
      \<and> (\<forall>c \<in> set (calls ''image'' (photo_files req)). snd c = ''image'')" by simp
  qed
  from stop submit_form_log[of ev req w] show ?thesis by (rule conjI)
qed

theorem photos_before_videos_witness:
  "failed env_B world0 ''image'' (photo_files req_A) (Error ''upload failed'')
   \<and> video_files req_A = [v1]
   \<and> cloud_log (snd (submit_form env_B req_A world0)) = [([1], ''image''), ([2], ''image'')]"
proof -
  have f: "failed env_B world0 ''image'' (photo_files req_A) (Error ''upload failed'')"
    using failed_photos_B files_A by simp
  from photos_before_videos[of env_B world0 req_A "Error ''upload failed''"] f
  have "cloud_log (snd (submit_form env_B req_A world0)) =
      cloud_log world0 @ calls ''image'' (photo_files req_A)" by blast
  then have "cloud_log (snd (submit_form env_B req_A world0)) = [([1], ''image''), ([2], ''image'')]"
    using files_A by (simp add: calls_def world0_def p1_def p2_def)
  with f files_A show ?thesis by simp
qed

subsection \<open>C10\<close>

text \<open>
  Claim C10. The check of the handler tests the presence of the \<open>photo\<close> and \<open>video\<close>
  keys of the files object, not that their arrays are non-empty. On a files object in which
  both keys are present with empty arrays (multer builds none; the claim is about the
  check), the request is not answered 400: processing continues, and with a Record Store
  that accepts the save the document with empty \<open>photoUrls\<close> and empty \<open>videoUrls\<close>
  is stored and the response is 200.
\<close>

theorem empty_lists_not_rejected:
  assumes "files req = Some fs" and "fs ''photo'' = Some []" and "fs ''video'' = Some []"
  shows "fst (submit_form ev req w) \<noteq> Some bad_request
       \<and> (\<forall>res. fst (submit_form ev req w) = Some res \<longrightarrow> status res \<noteq> 400)
       \<and> photoUrls (new_form req [] []) = [] \<and> videoUrls (new_form req [] []) = []
       \<and> (mongo_save ev (new_form req [] []) = None \<longrightarrow>
            submit_form ev req w =
              (Some (submitted (new_form req [] [])),
               w\<lparr>save_log := save_log w @ [new_form req [] []], db := db w @ [new_form req [] []]\<rparr>))"
proof -
  have key: "has_key req" using assms by (simp add: has_key_def)
  have ph: "photo_files req = []" using assms by (simp add: photo_files_def)
  have vs: "video_files req = []" using assms by (simp add: video_files_def)
  have av: "after_videos req w = w" by (simp add: after_videos_def ph vs calls_def)
  have p: "aligned ev w ''image'' (photo_files req) []" by (simp add: aligned_def ph)
  have pc: "all_complete ev ''image'' (length (photo_files req))" by (simp add: all_complete_def ph)
  have v: "aligned ev (after_photos req w) ''video'' (video_files req) []" by (simp add: aligned_def vs)
  have vc: "all_complete ev ''video'' (length (video_files req))" by (simp add: all_complete_def vs)
  show ?thesis
  proof (cases "mongo_save ev (new_form req [] [])")
    case None
    with submit_form_uploaded[OF key p pc v vc]
    have "submit_form ev req w =
        (Some (submitted (new_form req [] [])), stored (new_form req [] []) w)"
      by (simp add: av)
    with None show ?thesis
      by (simp add: stored_def submitted_def bad_request_def new_form_def)
  next
    case (Some err)
    with submit_form_uploaded[OF key p pc v vc]
    have "submit_form ev req w =
        (Some (went_wrong err), save_invoked (new_form req [] []) w)"
      by (simp add: av)
    with Some show ?thesis
      by (simp add: save_invoked_def went_wrong_def bad_request_def new_form_def)
  qed
qed

text \<open>Both keys with empty arrays and an accepting store: answered 200, the record stored.\<close>

theorem empty_lists_not_rejected_witness:
  "files req_empty_lists = Some [''photo'' \<mapsto> [], ''video'' \<mapsto> []]
   \<and> mongo_save env_A (new_form req_empty_lists [] []) = None
   \<and> fst (submit_form env_A req_empty_lists world0) \<noteq> Some bad_request
   \<and> submit_form env_A req_empty_lists world0 =
       (Some \<lparr>status = 200,
              json = JObject [(''message'', JString ''Form submitted successfully!''),
                              (''form'', JForm \<lparr>name = Some ''Ada'', address = None,
                                                photoUrls = [], videoUrls = []\<rparr>)]\<rparr>,
        \<lparr>cloud_log = [],
         save_log = [\<lparr>name = Some ''Ada'', address = None, photoUrls = [], videoUrls = []\<rparr>],
         db = [\<lparr>name = Some ''Ada'', address = None, photoUrls = [], videoUrls = []\<rparr>]\<rparr>)"
proof -
  have f: "files req_empty_lists = Some [''photo'' \<mapsto> [], ''video'' \<mapsto> []]"
    by (simp add: req_empty_lists_def)
  have p: "[''photo'' \<mapsto> [], ''video'' \<mapsto> ([]::multer_file list)] ''photo'' = Some []" by simp
  have v: "[''photo'' \<mapsto> [], ''video'' \<mapsto> ([]::multer_file list)] ''video'' = Some []" by simp
  have s: "mongo_save env_A (new_form req_empty_lists [] []) = None" by (simp add: env_A_def)
  from empty_lists_not_rejected[OF f p v, of env_A world0] s
  have n: "fst (submit_form env_A req_empty_lists world0) \<noteq> Some bad_request"
    and r: "submit_form env_A req_empty_lists world0 =
      (Some (submitted (new_form req_empty_lists [] [])),
       world0\<lparr>save_log := save_log world0 @ [new_form req_empty_lists [] []],
              db := db world0 @ [new_form req_empty_lists [] []]\<rparr>)"
    by blast+
  from r have "submit_form env_A req_empty_lists world0 =
       (Some \<lparr>status = 200,
              json = JObject [(''message'', JString ''Form submitted successfully!''),
                              (''form'', JForm \<lparr>name = Some ''Ada'', address = None,
                                                photoUrls = [], videoUrls = []\<rparr>)]\<rparr>,
        \<lparr>cloud_log = [],
         save_log = [\<lparr>name = Some ''Ada'', address = None, photoUrls = [], videoUrls = []\<rparr>],
         db = [\<lparr>name = Some ''Ada'', address = None, photoUrls = [], videoUrls = []\<rparr>]\<rparr>)"
    by (simp add: submitted_def new_form_def req_empty_lists_def world0_def)
  with f s n show ?thesis by blast
qed

end
